theory Spec2Isabelle
  imports Main
begin

section \<open>A two-pass assembler for a MIPS subset (assembly.py)\<close>

text \<open>
  Python's unbounded integers are \<open>int\<close>, its strings are \<open>string\<close>, the symbol
  table (a dict) is a map \<open>string \<rightharpoonup> int\<close>, and every \<open>ValueError\<close> that can leave a
  function is a value of the datatype \<open>error\<close>. Source text is taken to consist of
  ASCII characters: \<open>is_space\<close> holds the ASCII characters for which Python's
  \<open>str.isspace\<close> is true, \<open>lower\<close> maps \<open>A-Z\<close> to \<open>a-z\<close>, and \<open>py_int\<close> reads ASCII
  digits.
\<close>

subsection \<open>Errors\<close>

text \<open>The source raises \<open>ValueError\<close> with a message at each site; the constructors
  name the sites after what the message reports and carry the values the message
  shows. The two raises of the shift amount of \<open>sll\<close> (lines 103 and 105) end as the
  one of line 105, which catches the other. \<open>InvalidBinaryLiteral\<close> is the
  \<open>ValueError\<close> of \<open>int(binary_code, 2)\<close> in line 175, and \<open>LineError\<close> is the wrapping
  of line 223.\<close>

datatype error =
    UnknownRegister string
  | UnsupportedInstruction string
  | OperandCountMismatch string
  | InvalidShiftAmount string
  | InvalidImmediate string
  | InvalidLabelOrImmediate string string
  | BranchOffsetOutOfRange string int
  | InvalidLabelOrAddress string string
  | UnalignedJumpTarget int
  | InvalidBinaryLiteral string
  | DuplicateLabel string
  | LineError string error

text \<open>Sequencing of two fallible steps: the first exception raised wins.\<close>

definition bind_err :: "error + 'a \<Rightarrow> ('a \<Rightarrow> error + 'b) \<Rightarrow> error + 'b" where
  "bind_err m f = (case m of Inl e \<Rightarrow> Inl e | Inr x \<Rightarrow> f x)"

subsection \<open>String primitives of Python used by the source\<close>

definition is_space :: "char \<Rightarrow> bool" where
  "is_space c \<longleftrightarrow> c \<in> set [CHR 0x09, CHR 0x0A, CHR 0x0B, CHR 0x0C, CHR 0x0D,
                          CHR 0x1C, CHR 0x1D, CHR 0x1E, CHR 0x1F, CHR 0x20]"

text \<open>\<open>s.strip()\<close>\<close>

definition strip :: "string \<Rightarrow> string" where
  "strip s = rev (dropWhile is_space (rev (dropWhile is_space s)))"

text \<open>\<open>s.split()\<close>: the maximal runs of non-whitespace characters, in order. The first
  argument is the run being read.\<close>

fun split_run :: "string \<Rightarrow> string \<Rightarrow> string list" where
  "split_run cur [] = (if cur = [] then [] else [cur])"
| "split_run cur (c # cs) =
     (if is_space c then (if cur = [] then split_run [] cs else cur # split_run [] cs)
      else split_run (cur @ [c]) cs)"

definition split_ws :: "string \<Rightarrow> string list" where
  "split_ws s = split_run [] s"

text \<open>\<open>s.lower()\<close>\<close>

definition lower_char :: "char \<Rightarrow> char" where
  "lower_char c =
     (case map_of (zip ''ABCDEFGHIJKLMNOPQRSTUVWXYZ'' ''abcdefghijklmnopqrstuvwxyz'') c of
        Some d \<Rightarrow> d
      | None \<Rightarrow> c)"

definition lower :: "string \<Rightarrow> string" where
  "lower s = map lower_char s"

text \<open>\<open>int(s)\<close>: optional surrounding whitespace, an optional sign, then decimal digits
  in which single underscores may separate digits. \<open>None\<close> is the \<open>ValueError\<close>.\<close>

definition is_digit :: "char \<Rightarrow> bool" where
  "is_digit c \<longleftrightarrow> (let n = (of_char c :: nat) in 48 \<le> n \<and> n \<le> 57)"

definition digit_val :: "char \<Rightarrow> int" where
  "digit_val c = int (of_char c) - 48"

fun dec_digits :: "bool \<Rightarrow> int \<Rightarrow> string \<Rightarrow> int option" where
  "dec_digits prev acc [] = (if prev then Some acc else None)"
| "dec_digits prev acc (c # cs) =
     (if is_digit c then dec_digits True (10 * acc + digit_val c) cs
      else if c = CHR ''_'' \<and> prev then dec_digits False acc cs
      else None)"

definition py_int :: "string \<Rightarrow> int option" where
  "py_int s =
     (case strip s of
        [] \<Rightarrow> None
      | c # cs \<Rightarrow>
          if c = CHR ''-'' then map_option uminus (dec_digits False 0 cs)
          else if c = CHR ''+'' then dec_digits False 0 cs
          else dec_digits False 0 (c # cs))"

subsection \<open>Number formatting\<close>

text \<open>The binary digits of a natural number, most significant first
  (\<open>format(n, 'b')\<close> for \<open>n \<ge> 0\<close>).\<close>

fun bin_digits :: "nat \<Rightarrow> string" where
  "bin_digits n =
     (if n < 2 then [if n = 0 then CHR ''0'' else CHR ''1'']
      else bin_digits (n div 2) @ [if n mod 2 = 0 then CHR ''0'' else CHR ''1''])"

declare bin_digits.simps [simp del]

definition zero_pad :: "nat \<Rightarrow> string \<Rightarrow> string" where
  "zero_pad w s = replicate (w - length s) CHR ''0'' @ s"

text \<open>\<open>format(n, f'0{bits}b')\<close>: zero padding to the width is sign-aware, so a
  negative number gives a minus sign followed by \<open>bits - 1\<close> padded digits.\<close>

definition format_b :: "int \<Rightarrow> nat \<Rightarrow> string" where
  "format_b n bits =
     (if n < 0 then CHR ''-'' # zero_pad (bits - 1) (bin_digits (nat (- n)))
      else zero_pad bits (bin_digits (nat n)))"

text \<open>\<open>to_binary\<close> (lines 62-66).\<close>

definition to_binary :: "int \<Rightarrow> nat \<Rightarrow> string" where
  "to_binary n bits = (let n' = (if n < 0 then 2 ^ bits + n else n) in format_b n' bits)"

text \<open>\<open>int(s, 2)\<close> on the strings the encoder builds, which consist of the characters
  \<open>0\<close>, \<open>1\<close> and \<open>-\<close>: an optional sign followed by at least one binary digit.\<close>

definition bin_val :: "string \<Rightarrow> int" where
  "bin_val s = foldl (\<lambda>acc c. 2 * acc + (if c = CHR ''1'' then 1 else 0)) 0 s"

definition bin_chars :: "string \<Rightarrow> bool" where
  "bin_chars s \<longleftrightarrow> list_all (\<lambda>c. c = CHR ''0'' \<or> c = CHR ''1'') s"

definition is_bin :: "string \<Rightarrow> bool" where
  "is_bin s \<longleftrightarrow> s \<noteq> [] \<and> bin_chars s"

definition int_base2 :: "string \<Rightarrow> int option" where
  "int_base2 s =
     (case s of
        [] \<Rightarrow> None
      | c # cs \<Rightarrow>
          if c = CHR ''-'' then (if is_bin cs then Some (- bin_val cs) else None)
          else if c = CHR ''+'' then (if is_bin cs then Some (bin_val cs) else None)
          else if is_bin s then Some (bin_val s) else None)"

text \<open>\<open>format(n, '08x')\<close> for \<open>n \<ge> 0\<close>.\<close>

definition hex_char :: "nat \<Rightarrow> char" where
  "hex_char d = ''0123456789abcdef'' ! d"

fun hex_digits :: "nat \<Rightarrow> string" where
  "hex_digits n =
     (if n < 16 then [hex_char n] else hex_digits (n div 16) @ [hex_char (n mod 16)])"

declare hex_digits.simps [simp del]

definition format_08x :: "int \<Rightarrow> string" where
  "format_08x n =
     (if n < 0 then CHR ''-'' # zero_pad 7 (hex_digits (nat (- n)))
      else zero_pad 8 (hex_digits (nat n)))"

subsection \<open>The fixed tables (lines 8-60)\<close>

definition REGISTER_LIST :: "(string \<times> int) list" where
  "REGISTER_LIST =
    [
     (''$zero'', 0), (''$0'', 0), (''$at'', 1), (''$1'', 1),
     (''$v0'', 2), (''$2'', 2), (''$v1'', 3), (''$3'', 3),
     (''$a0'', 4), (''$4'', 4), (''$a1'', 5), (''$5'', 5),
     (''$a2'', 6), (''$6'', 6), (''$a3'', 7), (''$7'', 7),
     (''$t0'', 8), (''$8'', 8), (''$t1'', 9), (''$9'', 9),
     (''$t2'', 10), (''$10'', 10), (''$t3'', 11), (''$11'', 11),
     (''$t4'', 12), (''$12'', 12), (''$t5'', 13), (''$13'', 13),
     (''$t6'', 14), (''$14'', 14), (''$t7'', 15), (''$15'', 15),
     (''$s0'', 16), (''$16'', 16), (''$s1'', 17), (''$17'', 17),
     (''$s2'', 18), (''$18'', 18), (''$s3'', 19), (''$19'', 19),
     (''$s4'', 20), (''$20'', 20), (''$s5'', 21), (''$21'', 21),
     (''$s6'', 22), (''$22'', 22), (''$s7'', 23), (''$23'', 23),
     (''$t8'', 24), (''$24'', 24), (''$t9'', 25), (''$25'', 25),
     (''$k0'', 26), (''$26'', 26), (''$k1'', 27), (''$27'', 27),
     (''$gp'', 28), (''$28'', 28), (''$sp'', 29), (''$29'', 29),
     (''$fp'', 30), (''$30'', 30), (''$ra'', 31), (''$31'', 31)]"

definition REGISTER_MAP :: "string \<rightharpoonup> int" where
  "REGISTER_MAP = map_of REGISTER_LIST"

datatype op_type = RType | IType | JType

text \<open>An entry of \<open>INSTRUCTIONS\<close>: the format category and the 6-bit code stored
  under \<open>'funct'\<close> (R) or \<open>'opcode'\<close> (I, J).\<close>

definition INSTRUCTIONS :: "string \<rightharpoonup> op_type \<times> int" where
  "INSTRUCTIONS = map_of
     [(''add'', (RType, 0x20)), (''sub'', (RType, 0x22)), (''and'', (RType, 0x24)),
      (''or'', (RType, 0x25)), (''slt'', (RType, 0x2a)), (''sll'', (RType, 0x00)),
      (''addi'', (IType, 0x08)), (''lw'', (IType, 0x23)), (''sw'', (IType, 0x2b)),
      (''beq'', (IType, 0x04)), (''bne'', (IType, 0x05)),
      (''j'', (JType, 0x02))]"

text \<open>\<open>parse_register\<close> (lines 68-72).\<close>

definition parse_register :: "string \<Rightarrow> error + int" where
  "parse_register reg_str =
     (case REGISTER_MAP reg_str of
        None \<Rightarrow> Inl (UnknownRegister reg_str)
      | Some r \<Rightarrow> Inr r)"

subsection \<open>Encoding one instruction: \<open>assemble\<close> (lines 74-176)\<close>

text \<open>Lines 76-78: strip, turn \<open>,\<close> \<open>(\<close> \<open>)\<close> into spaces, split on whitespace.\<close>

definition replace_punct :: "string \<Rightarrow> string" where
  "replace_punct s =
     map (\<lambda>c. if c = CHR '','' \<or> c = CHR ''('' \<or> c = CHR '')'' then CHR '' '' else c) s"

definition tokenize :: "string \<Rightarrow> string list" where
  "tokenize line = split_ws (replace_punct (strip line))"

text \<open>Lines 93-112, the R format. The result is \<open>binary_code\<close>.\<close>

definition encode_R :: "string \<Rightarrow> int \<Rightarrow> string list \<Rightarrow> error + string" where
  "encode_R mnemonic funct operands =
     (if length operands \<noteq> 3 then Inl (OperandCountMismatch mnemonic)
      else if mnemonic = ''sll'' then
        bind_err (parse_register (operands ! 0)) (\<lambda>rd.
        bind_err (parse_register (operands ! 1)) (\<lambda>rt.
          case py_int (operands ! 2) of
            None \<Rightarrow> Inl (InvalidShiftAmount mnemonic)
          | Some shamt \<Rightarrow>
              if \<not> (0 \<le> shamt \<and> shamt < 32) then Inl (InvalidShiftAmount mnemonic)
              else
                let rs = 0 in
                Inr (''000000'' @ to_binary rs 5 @ to_binary rt 5 @ to_binary rd 5
                       @ to_binary shamt 5 @ to_binary funct 6)))
      else
        bind_err (parse_register (operands ! 0)) (\<lambda>rd.
        bind_err (parse_register (operands ! 1)) (\<lambda>rs.
        bind_err (parse_register (operands ! 2)) (\<lambda>rt.
          let shamt = 0 in
          Inr (''000000'' @ to_binary rs 5 @ to_binary rt 5 @ to_binary rd 5
                 @ to_binary shamt 5 @ to_binary funct 6)))))"

text \<open>Lines 114-155, the I format.\<close>

definition encode_I ::
  "string \<Rightarrow> int \<Rightarrow> string list \<Rightarrow> (string \<rightharpoonup> int) \<Rightarrow> int \<Rightarrow> error + string" where
  "encode_I mnemonic opc operands symbol_table current_address =
     (let opcode = to_binary opc 6 in
      if mnemonic \<in> set [''lw'', ''sw''] then
        if length operands \<noteq> 3 then Inl (OperandCountMismatch mnemonic)
        else
          bind_err (parse_register (operands ! 0)) (\<lambda>rt.
          bind_err (parse_register (operands ! 2)) (\<lambda>rs.
            case py_int (operands ! 1) of
              None \<Rightarrow> Inl (InvalidImmediate mnemonic)
            | Some immediate \<Rightarrow>
                Inr (opcode @ to_binary rs 5 @ to_binary rt 5 @ to_binary immediate 16)))
      else if mnemonic \<in> set [''beq'', ''bne''] then
        if length operands \<noteq> 3 then Inl (OperandCountMismatch mnemonic)
        else
          bind_err (parse_register (operands ! 0)) (\<lambda>rs.
          bind_err (parse_register (operands ! 1)) (\<lambda>rt.
            let label = operands ! 2 in
            bind_err
              (case symbol_table label of
                 Some target_address \<Rightarrow>
                   (let offset = target_address - (current_address + 4)
                    in Inr (drop_bit 2 offset))
               | None \<Rightarrow>
                   (case py_int label of
                      None \<Rightarrow> Inl (InvalidLabelOrImmediate mnemonic label)
                    | Some immediate \<Rightarrow> Inr immediate))
              (\<lambda>immediate.
                 if \<not> (- 32768 \<le> immediate \<and> immediate \<le> 32767)
                 then Inl (BranchOffsetOutOfRange mnemonic immediate)
                 else Inr (opcode @ to_binary rs 5 @ to_binary rt 5
                             @ to_binary immediate 16))))
      else
        if length operands \<noteq> 3 then Inl (OperandCountMismatch mnemonic)
        else
          bind_err (parse_register (operands ! 0)) (\<lambda>rt.
          bind_err (parse_register (operands ! 1)) (\<lambda>rs.
            case py_int (operands ! 2) of
              None \<Rightarrow> Inl (InvalidImmediate mnemonic)
            | Some immediate \<Rightarrow>
                Inr (opcode @ to_binary rs 5 @ to_binary rt 5 @ to_binary immediate 16))))"

text \<open>Lines 157-173, the J format. Python's \<open>%\<close> is \<open>mod\<close> (the result has the
  divisor's sign) and \<open>>>\<close> on integers is \<open>drop_bit\<close> (rounding down).\<close>

definition encode_J ::
  "string \<Rightarrow> int \<Rightarrow> string list \<Rightarrow> (string \<rightharpoonup> int) \<Rightarrow> error + string" where
  "encode_J mnemonic opc operands symbol_table =
     (if length operands \<noteq> 1 then Inl (OperandCountMismatch mnemonic)
      else
        let label = operands ! 0 in
        bind_err
          (case symbol_table label of
             Some a \<Rightarrow> Inr a
           | None \<Rightarrow>
               (case py_int label of
                  None \<Rightarrow> Inl (InvalidLabelOrAddress mnemonic label)
                | Some a \<Rightarrow> Inr a))
          (\<lambda>target_address.
             if target_address mod 4 \<noteq> 0 then Inl (UnalignedJumpTarget target_address)
             else
               let jump_target = drop_bit 2 target_address in
               Inr (to_binary opc 6 @ to_binary jump_target 26)))"

text \<open>Lines 175-176: the binary text is read back as a number and shown as
  \<open>0xHHHH_HHHH\<close>.\<close>

definition render_word :: "int \<Rightarrow> string" where
  "render_word w =
     (let hex_code = format_08x w in ''0x'' @ take 4 hex_code @ ''_'' @ drop 4 hex_code)"

definition render :: "string \<Rightarrow> error + string" where
  "render binary_code =
     (case int_base2 binary_code of
        None \<Rightarrow> Inl (InvalidBinaryLiteral binary_code)
      | Some w \<Rightarrow> Inr (render_word w))"

definition assemble :: "string \<Rightarrow> (string \<rightharpoonup> int) \<Rightarrow> int \<Rightarrow> error + string" where
  "assemble line symbol_table current_address =
     (case tokenize line of
        [] \<Rightarrow> Inr ''''
      | p0 # operands \<Rightarrow>
          let mnemonic = lower p0 in
          (case INSTRUCTIONS mnemonic of
             None \<Rightarrow> Inl (UnsupportedInstruction p0)
           | Some (op_type, code) \<Rightarrow>
               bind_err
                 (case op_type of
                    RType \<Rightarrow> encode_R mnemonic code operands
                  | IType \<Rightarrow> encode_I mnemonic code operands symbol_table current_address
                  | JType \<Rightarrow> encode_J mnemonic code operands symbol_table)
                 render))"

subsection \<open>The two passes (lines 178-226)\<close>

text \<open>\<open>line.split('#')[0]\<close>\<close>

definition strip_comment :: "string \<Rightarrow> string" where
  "strip_comment s = takeWhile (\<lambda>c. c \<noteq> CHR ''#'') s"

text \<open>\<open>re.match(r'^\s*([a-zA-Z0-9_]+):\s*(.*)', line)\<close>: the two groups, or \<open>None\<close>.
  The identifier is the longest run of identifier characters, a colon must follow
  it, and \<open>.\<close> does not match a newline.\<close>

definition is_ident :: "char \<Rightarrow> bool" where
  "is_ident c \<longleftrightarrow>
     (let n = (of_char c :: nat)
      in (48 \<le> n \<and> n \<le> 57) \<or> (65 \<le> n \<and> n \<le> 90) \<or> (97 \<le> n \<and> n \<le> 122) \<or> n = 95)"

definition match_label :: "string \<Rightarrow> (string \<times> string) option" where
  "match_label line =
     (let s = dropWhile is_space line;
          label = takeWhile is_ident s;
          rest = dropWhile is_ident s
      in case rest of
           [] \<Rightarrow> None
         | c # after \<Rightarrow>
             if label = [] then None
             else if c = CHR '':'' then
               Some (label, takeWhile (\<lambda>c. c \<noteq> CHR 0x0A) (dropWhile is_space after))
             else None)"

text \<open>\<open>first_pass\<close> (lines 178-198). The loop state is the symbol table and the
  running address.\<close>

fun first_pass_loop ::
  "string list \<Rightarrow> (string \<rightharpoonup> int) \<times> int \<Rightarrow> error + ((string \<rightharpoonup> int) \<times> int)" where
  "first_pass_loop [] st = Inr st"
| "first_pass_loop (raw # rest) (symbol_table, address) =
     (let line = strip (strip_comment raw) in
      if line = [] then first_pass_loop rest (symbol_table, address)
      else
        case match_label line of
          Some (label, g2) \<Rightarrow>
            (let instruction_part = strip g2 in
             if symbol_table label \<noteq> None then Inl (DuplicateLabel label)
             else if instruction_part \<noteq> []
               then first_pass_loop rest (symbol_table(label \<mapsto> address), address + 4)
               else first_pass_loop rest (symbol_table(label \<mapsto> address), address))
        | None \<Rightarrow> first_pass_loop rest (symbol_table, address + 4))"

definition first_pass :: "string list \<Rightarrow> error + (string \<rightharpoonup> int)" where
  "first_pass lines = map_sum id fst (first_pass_loop lines (Map.empty, 0))"

text \<open>\<open>second_pass\<close> (lines 200-226). The loop state is the running address and the
  list \<open>machine_codes\<close>; a pair \<open>(original_line, None)\<close> is the entry of a line that
  holds only a label.\<close>

fun second_pass_loop ::
  "string list \<Rightarrow> (string \<rightharpoonup> int) \<Rightarrow> int \<times> (string \<times> string option) list
     \<Rightarrow> error + (int \<times> (string \<times> string option) list)" where
  "second_pass_loop [] symbol_table st = Inr st"
| "second_pass_loop (original_line # rest) symbol_table (address, machine_codes) =
     (let line = strip (strip_comment original_line) in
      if line = [] then second_pass_loop rest symbol_table (address, machine_codes)
      else
        let instruction_part =
              (case match_label line of Some (label, g2) \<Rightarrow> strip g2 | None \<Rightarrow> line)
        in
        if instruction_part = []
        then second_pass_loop rest symbol_table
               (address, machine_codes @ [(original_line, None)])
        else
          case assemble instruction_part symbol_table address of
            Inl e \<Rightarrow> Inl (LineError (strip original_line) e)
          | Inr code \<Rightarrow>
              second_pass_loop rest symbol_table
                (address + 4, machine_codes @ [(original_line, Some code)]))"

definition second_pass ::
  "string list \<Rightarrow> (string \<rightharpoonup> int) \<Rightarrow> error + (string \<times> string option) list" where
  "second_pass lines symbol_table =
     map_sum id snd (second_pass_loop lines symbol_table (0, []))"

text \<open>The two calls of \<open>main\<close> (lines 237-238).\<close>

definition assemble_program :: "string list \<Rightarrow> error + (string \<times> string option) list" where
  "assemble_program lines =
     bind_err (first_pass lines) (\<lambda>symbol_table. second_pass lines symbol_table)"

subsection \<open>What a line holds\<close>

text \<open>Both passes start with the same three steps on a line (lines 184-190 and
  206-213): cut the comment and strip, skip the line when nothing is left, match the
  label prefix. The following names are for these steps.\<close>

definition line_text :: "string \<Rightarrow> string" where
  "line_text raw = strip (strip_comment raw)"

definition is_blank :: "string \<Rightarrow> bool" where
  "is_blank raw \<longleftrightarrow> line_text raw = []"

definition line_label :: "string \<Rightarrow> string option" where
  "line_label raw =
     (if line_text raw = [] then None else map_option fst (match_label (line_text raw)))"

definition instruction_part :: "string \<Rightarrow> string" where
  "instruction_part raw =
     (case match_label (line_text raw) of
        Some (label, g2) \<Rightarrow> strip g2
      | None \<Rightarrow> line_text raw)"

definition has_instruction :: "string \<Rightarrow> bool" where
  "has_instruction raw \<longleftrightarrow> instruction_part raw \<noteq> []"

text \<open>An entry of \<open>machine_codes\<close> fits a line: it carries the line's own text, and it
  has no code exactly when the line has no instruction; a code is what \<open>assemble\<close>
  returned for the line's instruction text.\<close>

definition result_for :: "(string \<rightharpoonup> int) \<Rightarrow> string \<Rightarrow> string \<times> string option \<Rightarrow> bool" where
  "result_for symbol_table raw r \<longleftrightarrow>
     fst r = raw \<and>
     (case snd r of
        None \<Rightarrow> \<not> has_instruction raw
      | Some code \<Rightarrow>
          has_instruction raw \<and>
          (\<exists>address. assemble (instruction_part raw) symbol_table address = Inr code))"

section \<open>Supporting lemmas\<close>

subsection \<open>Binary digit strings\<close>

lemma bin_chars_simps [simp]:
  "bin_chars []"
  "bin_chars (c # s) \<longleftrightarrow> (c = CHR ''0'' \<or> c = CHR ''1'') \<and> bin_chars s"
  "bin_chars (s @ t) \<longleftrightarrow> bin_chars s \<and> bin_chars t"
  by (auto simp: bin_chars_def)

lemma foldl_bin_shift:
  fixes a :: int
  defines "f \<equiv> (\<lambda>acc c. 2 * acc + (if c = CHR ''1'' then 1 else (0::int)))"
  shows "foldl f a s = a * 2 ^ length s + foldl f 0 s"
proof (induction s arbitrary: a)
  case Nil
  show ?case by simp
next
  case (Cons c s)
  have 1: "foldl f (f a c) s = f a c * 2 ^ length s + foldl f 0 s"
    by (rule Cons.IH)
  have 2: "foldl f (f 0 c) s = f 0 c * 2 ^ length s + foldl f 0 s"
    by (rule Cons.IH)
  have 3: "f a c = 2 * a + f 0 c"
    by (simp add: f_def)
  show ?case
    unfolding foldl_Cons 1 2 by (simp add: 3 algebra_simps)
qed

lemma bin_val_Nil [simp]: "bin_val [] = 0"
  by (simp add: bin_val_def)

lemma bin_val_append: "bin_val (s @ t) = bin_val s * 2 ^ length t + bin_val t"
  unfolding bin_val_def foldl_append by (rule foldl_bin_shift)

lemma bin_val_single [simp]: "bin_val [c] = (if c = CHR ''1'' then 1 else 0)"
  by (simp add: bin_val_def)

lemma bin_val_Cons: "bin_val (c # s) = (if c = CHR ''1'' then 1 else 0) * 2 ^ length s + bin_val s"
  using bin_val_append [of "[c]" s] by simp

lemma bin_val_replicate_zero [simp]: "bin_val (replicate k CHR ''0'') = 0"
  by (induction k) (simp_all add: bin_val_Cons)

lemma bin_val_nonneg: "0 \<le> bin_val s"
  by (induction s rule: rev_induct) (simp_all add: bin_val_append)

lemma bin_val_less: "bin_val s < 2 ^ length s"
proof (induction s rule: rev_induct)
  case Nil
  show ?case by simp
next
  case (snoc c s)
  then show ?case by (simp add: bin_val_append)
qed

lemma bin_digits_chars [simp]: "bin_chars (bin_digits n)"
  by (induction n rule: bin_digits.induct) (subst bin_digits.simps, simp)

lemma bin_digits_nonempty [simp]: "bin_digits n \<noteq> []"
  by (subst bin_digits.simps) simp

lemma bin_val_bin_digits [simp]: "bin_val (bin_digits n) = int n"
proof (induction n rule: bin_digits.induct)
  case (1 n)
  show ?case
  proof (cases "n < 2")
    case True
    then have "n = 0 \<or> n = 1" by auto
    then show ?thesis by (subst bin_digits.simps) auto
  next
    case False
    have "int n = int (n div 2) * 2 + int (n mod 2)" by presburger
    with False 1 show ?thesis
      by (subst bin_digits.simps) (auto simp: bin_val_append simp del: of_nat_div of_nat_mod)
  qed
qed

lemma length_bin_digits: "0 < k \<Longrightarrow> n < 2 ^ k \<Longrightarrow> length (bin_digits n) \<le> k"
proof (induction n arbitrary: k rule: bin_digits.induct)
  case (1 n)
  show ?case
  proof (cases "n < 2")
    case True
    with 1(2) show ?thesis by (subst bin_digits.simps) simp
  next
    case False
    with 1(3) have k: "1 < k"
      by (cases k; cases "k - 1") auto
    then obtain j where j: "k = Suc j" "0 < j" by (cases k) auto
    with 1(3) have "n div 2 < 2 ^ j" by auto
    with 1(1) [OF False j(2)] have "length (bin_digits (n div 2)) \<le> j" by simp
    with False j show ?thesis by (subst bin_digits.simps) simp
  qed
qed

lemma length_bin_digits_ge: "2 ^ k \<le> n \<Longrightarrow> k < length (bin_digits n)"
proof -
  assume a: "2 ^ k \<le> n"
  have "int n < 2 ^ length (bin_digits n)"
    using bin_val_less [of "bin_digits n"] by simp
  moreover from a have "(2::int) ^ k \<le> int n"
    using of_nat_le_iff [of "2 ^ k" n, where ?'a = int] by simp
  ultimately have "(2::int) ^ k < 2 ^ length (bin_digits n)"
    by linarith
  then show ?thesis by simp
qed

lemma bin_chars_replicate [simp]: "bin_chars (replicate k CHR ''0'')"
  by (induction k) simp_all

lemma zero_pad_props [simp]:
  "bin_chars (zero_pad w s) \<longleftrightarrow> bin_chars s"
  "bin_val (zero_pad w s) = bin_val s"
  "length (zero_pad w s) = max w (length s)"
  by (auto simp: zero_pad_def bin_val_append)

lemma to_binary_in_range:
  assumes "0 < bits" and "- (2 ^ bits) \<le> n" and "n < 2 ^ bits"
  shows "length (to_binary n bits) = bits"
    and "bin_chars (to_binary n bits)"
    and "bin_val (to_binary n bits) = n mod 2 ^ bits"
proof -
  define m where "m = (if n < 0 then 2 ^ bits + n else n)"
  have m01: "0 \<le> m" "m < 2 ^ bits"
    using assms by (auto simp: m_def)
  have "n mod 2 ^ bits = m mod 2 ^ bits"
    by (simp add: m_def)
  with m01 have m2: "m = n mod 2 ^ bits"
    by simp
  have tb: "to_binary n bits = zero_pad bits (bin_digits (nat m))"
    using m01(1) by (simp add: to_binary_def format_b_def m_def Let_def)
  have "nat m < 2 ^ bits"
    using m01 by (simp add: nat_less_iff)
  from length_bin_digits [OF assms(1) this]
  show "length (to_binary n bits) = bits" by (simp add: tb)
  show "bin_chars (to_binary n bits)" by (simp add: tb)
  show "bin_val (to_binary n bits) = n mod 2 ^ bits" using m01 m2 by (simp add: tb)
qed

subsection \<open>Packing the fields\<close>

lemma int_base2_bin: "bin_chars s \<Longrightarrow> s \<noteq> [] \<Longrightarrow> int_base2 s = Some (bin_val s)"
  by (cases s) (auto simp: int_base2_def is_bin_def)

lemma render_bin: "bin_chars s \<Longrightarrow> s \<noteq> [] \<Longrightarrow> render s = Inr (render_word (bin_val s))"
  by (simp add: render_def int_base2_bin)

lemma register_values: "(r, v) \<in> set REGISTER_LIST \<Longrightarrow> 0 \<le> v \<and> v < 32"
  by (auto simp: REGISTER_LIST_def)

lemma parse_register_range: "parse_register r = Inr v \<Longrightarrow> 0 \<le> v \<and> v < 32"
  by (auto simp: parse_register_def REGISTER_MAP_def split: option.splits
        dest!: map_of_SomeD register_values)

text \<open>A field that fits its width: the digits are exactly the field's width and their
  value is the field (modulo the width for a negative field).\<close>

lemma field5:
  assumes "0 \<le> v" "v < 32"
  shows "length (to_binary v 5) = 5" "bin_chars (to_binary v 5)" "bin_val (to_binary v 5) = v"
  using to_binary_in_range [of 5 v] assms by simp_all

lemma field6:
  assumes "0 \<le> v" "v < 64"
  shows "length (to_binary v 6) = 6" "bin_chars (to_binary v 6)" "bin_val (to_binary v 6) = v"
  using to_binary_in_range [of 6 v] assms by simp_all

lemma field16:
  assumes "- 65536 \<le> v" "v < 65536"
  shows "length (to_binary v 16) = 16" "bin_chars (to_binary v 16)"
    "bin_val (to_binary v 16) = v mod 65536"
  using to_binary_in_range [of 16 v] assms by simp_all

lemma field26:
  assumes "- 67108864 \<le> v" "v < 67108864"
  shows "length (to_binary v 26) = 26" "bin_chars (to_binary v 26)"
    "bin_val (to_binary v 26) = v mod 67108864"
  using to_binary_in_range [of 26 v] assms by simp_all

lemma render_I_fields:
  assumes "0 \<le> opc" "opc < 64" "0 \<le> rs" "rs < 32" "0 \<le> rt" "rt < 32"
    and "- 65536 \<le> imm" "imm < 65536"
  shows "render (to_binary opc 6 @ to_binary rs 5 @ to_binary rt 5 @ to_binary imm 16)
           = Inr (render_word (opc * 2 ^ 26 + rs * 2 ^ 21 + rt * 2 ^ 16 + imm mod 2 ^ 16))"
proof -
  note f = field6 [OF assms(1,2)] field5 [OF assms(3,4)] field5 [OF assms(5,6)]
    field16 [OF assms(7,8)]
  have ne: "to_binary opc 6 \<noteq> []"
    using f(1) by auto
  have "bin_val (to_binary opc 6 @ to_binary rs 5 @ to_binary rt 5 @ to_binary imm 16)
          = opc * 2 ^ 26 + rs * 2 ^ 21 + rt * 2 ^ 16 + imm mod 2 ^ 16"
    by (simp add: bin_val_append f algebra_simps)
  then show ?thesis
    using render_bin [of "to_binary opc 6 @ to_binary rs 5 @ to_binary rt 5 @ to_binary imm 16"]
    by (simp add: f ne)
qed

lemma render_R_fields:
  assumes "0 \<le> rs" "rs < 32" "0 \<le> rt" "rt < 32" "0 \<le> rd" "rd < 32"
    and "0 \<le> shamt" "shamt < 32" "0 \<le> funct" "funct < 64"
  shows "render (''000000'' @ to_binary rs 5 @ to_binary rt 5 @ to_binary rd 5
                   @ to_binary shamt 5 @ to_binary funct 6)
           = Inr (render_word (rs * 2 ^ 21 + rt * 2 ^ 16 + rd * 2 ^ 11 + shamt * 2 ^ 6 + funct))"
proof -
  note f = field5 [OF assms(1,2)] field5 [OF assms(3,4)] field5 [OF assms(5,6)]
    field5 [OF assms(7,8)] field6 [OF assms(9,10)]
  let ?s = "to_binary rs 5 @ to_binary rt 5 @ to_binary rd 5 @ to_binary shamt 5
              @ to_binary funct 6"
  have v: "bin_val ?s = rs * 2 ^ 21 + rt * 2 ^ 16 + rd * 2 ^ 11 + shamt * 2 ^ 6 + funct"
    by (simp add: bin_val_append f algebra_simps)
  have z: "bin_val (''000000'' @ ?s) = bin_val ?s"
    by (simp only: bin_val_append [of "''000000''"]) (simp add: bin_val_def)
  have "bin_chars (''000000'' @ ?s)"
    by (simp add: f)
  then show ?thesis
    using render_bin [of "''000000'' @ ?s"] by (simp only: z v) simp
qed

lemma render_J_fields:
  assumes "0 \<le> opc" "opc < 64" "- 67108864 \<le> jt" "jt < 67108864"
  shows "render (to_binary opc 6 @ to_binary jt 26)
           = Inr (render_word (opc * 2 ^ 26 + jt mod 2 ^ 26))"
proof -
  note f = field6 [OF assms(1,2)] field26 [OF assms(3,4)]
  have ne: "to_binary opc 6 \<noteq> []"
    using f(1) by auto
  have "bin_val (to_binary opc 6 @ to_binary jt 26) = opc * 2 ^ 26 + jt mod 2 ^ 26"
    by (simp add: bin_val_append f)
  then show ?thesis
    using render_bin [of "to_binary opc 6 @ to_binary jt 26"] by (simp add: f ne)
qed

lemma INSTRUCTIONS_simps:
  "INSTRUCTIONS ''beq'' = Some (IType, 4)"
  "INSTRUCTIONS ''bne'' = Some (IType, 5)"
  "INSTRUCTIONS ''sll'' = Some (RType, 0)"
  "INSTRUCTIONS ''j'' = Some (JType, 2)"
  "INSTRUCTIONS ''addi'' = Some (IType, 8)"
  "INSTRUCTIONS ''lw'' = Some (IType, 35)"
  "INSTRUCTIONS ''sw'' = Some (IType, 43)"
  by (simp_all add: INSTRUCTIONS_def)

lemma assemble_branch:
  assumes tok: "tokenize line = [m, a, b, c]"
    and mn: "lower m = ''beq'' \<or> lower m = ''bne''"
    and regs: "parse_register a = Inr rs" "parse_register b = Inr rt"
    and res: "case symbol_table c of
                Some target \<Rightarrow> imm = (target - (addr + 4)) div 4
              | None \<Rightarrow> py_int c = Some imm"
  shows "assemble line symbol_table addr =
           (if - 32768 \<le> imm \<and> imm \<le> 32767
            then Inr (render_word ((if lower m = ''beq'' then 4 else 5) * 2 ^ 26
                                     + rs * 2 ^ 21 + rt * 2 ^ 16 + imm mod 2 ^ 16))
            else Inl (BranchOffsetOutOfRange (lower m) imm))"
proof -
  define opc :: int where "opc = (if lower m = ''beq'' then 4 else 5)"
  have ins: "INSTRUCTIONS (lower m) = Some (IType, opc)"
    using mn by (auto simp: opc_def INSTRUCTIONS_simps)
  have opc: "0 \<le> opc" "opc < 64"
    by (simp_all add: opc_def)
  note r = parse_register_range [OF regs(1)] parse_register_range [OF regs(2)]
  have enc: "encode_I (lower m) opc [a, b, c] symbol_table addr =
               (if - 32768 \<le> imm \<and> imm \<le> 32767
                then Inr (to_binary opc 6 @ to_binary rs 5 @ to_binary rt 5 @ to_binary imm 16)
                else Inl (BranchOffsetOutOfRange (lower m) imm))"
    using mn regs res
    by (auto simp: encode_I_def bind_err_def Let_def drop_bit_eq_div split: option.splits)
  show ?thesis
  proof (cases "- 32768 \<le> imm \<and> imm \<le> 32767")
    case True
    then have "render (to_binary opc 6 @ to_binary rs 5 @ to_binary rt 5 @ to_binary imm 16)
                 = Inr (render_word (opc * 2 ^ 26 + rs * 2 ^ 21 + rt * 2 ^ 16 + imm mod 2 ^ 16))"
      using render_I_fields [of opc rs rt imm] opc r by simp
    with True show ?thesis
      by (simp add: assemble_def tok ins enc bind_err_def Let_def flip: opc_def)
  next
    case False
    have e: "encode_I (lower m) opc [a, b, c] symbol_table addr
               = Inl (BranchOffsetOutOfRange (lower m) imm)"
      unfolding enc using False by (rule if_not_P)
    show ?thesis
      unfolding if_not_P [OF False] by (simp add: assemble_def tok ins e bind_err_def)
  qed
qed

lemma signed16:
  fixes imm :: int
  assumes "- 32768 \<le> imm" "imm \<le> 32767"
  shows "(let f = imm mod 2 ^ 16 in if 32768 \<le> f then f - 65536 else f) = imm"
proof (cases "imm < 0")
  case True
  have "(imm + 65536) mod 65536 = imm + 65536"
    using True assms by (intro mod_pos_pos_trivial) simp_all
  then have "imm mod 65536 = imm + 65536"
    by simp
  with True assms show ?thesis
    by (simp add: Let_def)
next
  case False
  then have "imm mod 65536 = imm"
    using assms by simp
  with False assms show ?thesis
    by (simp add: Let_def)
qed

lemma assemble_sll:
  assumes tok: "tokenize line = [m, a, b, c]"
    and mn: "lower m = ''sll''"
    and regs: "parse_register a = Inr rd" "parse_register b = Inr rt"
  shows "assemble line symbol_table addr =
           (case py_int c of
              None \<Rightarrow> Inl (InvalidShiftAmount ''sll'')
            | Some shamt \<Rightarrow>
                if 0 \<le> shamt \<and> shamt < 32
                then Inr (render_word (rt * 2 ^ 16 + rd * 2 ^ 11 + shamt * 2 ^ 6))
                else Inl (InvalidShiftAmount ''sll''))"
proof -
  note r = parse_register_range [OF regs(1)] parse_register_range [OF regs(2)]
  note ins = INSTRUCTIONS_simps Let_def
  show ?thesis
  proof (cases "py_int c")
    case None
    then show ?thesis
      by (simp add: assemble_def tok ins mn encode_R_def regs bind_err_def)
  next
    case (Some shamt)
    show ?thesis
    proof (cases "0 \<le> shamt \<and> shamt < 32")
      case True
      then have "render (''000000'' @ to_binary 0 5 @ to_binary rt 5 @ to_binary rd 5
                           @ to_binary shamt 5 @ to_binary 0 6)
                   = Inr (render_word (0 * 2 ^ 21 + rt * 2 ^ 16 + rd * 2 ^ 11 + shamt * 2 ^ 6 + 0))"
        using render_R_fields [of 0 rt rd shamt 0] r by simp
      with True Some show ?thesis
        by (simp add: assemble_def tok ins mn encode_R_def regs bind_err_def)
    next
      case False
      have e: "encode_R ''sll'' 0 [a, b, c] = Inl (InvalidShiftAmount ''sll'')"
        using False by (simp add: encode_R_def regs bind_err_def Some)
      show ?thesis
        unfolding Some option.case if_not_P [OF False]
        by (simp add: assemble_def tok ins mn e bind_err_def)
    qed
  qed
qed

subsection \<open>The loops of the two passes\<close>

lemma match_label_Nil [simp]: "match_label [] = None"
  by (simp add: match_label_def)

lemma has_instruction_not_blank: "has_instruction raw \<Longrightarrow> \<not> is_blank raw"
  by (auto simp: has_instruction_def is_blank_def instruction_part_def)

lemma is_blank_no_label: "is_blank raw \<Longrightarrow> line_label raw = None"
  by (simp add: is_blank_def line_label_def)

lemma first_pass_loop_Cons:
  "first_pass_loop (raw # rest) (tab, a) =
     (case line_label raw of
        None \<Rightarrow> first_pass_loop rest (tab, a + (if has_instruction raw then 4 else 0))
      | Some l \<Rightarrow>
          if tab l \<noteq> None then Inl (DuplicateLabel l)
          else first_pass_loop rest (tab(l \<mapsto> a), a + (if has_instruction raw then 4 else 0)))"
  by (auto simp: line_label_def has_instruction_def instruction_part_def line_text_def Let_def
        split: option.splits)

lemma second_pass_loop_Cons:
  "second_pass_loop (raw # rest) st (a, acc) =
     (if is_blank raw then second_pass_loop rest st (a, acc)
      else if \<not> has_instruction raw then second_pass_loop rest st (a, acc @ [(raw, None)])
      else case assemble (instruction_part raw) st a of
             Inl e \<Rightarrow> Inl (LineError (strip raw) e)
           | Inr code \<Rightarrow> second_pass_loop rest st (a + 4, acc @ [(raw, Some code)]))"
  by (auto simp: is_blank_def has_instruction_def instruction_part_def line_text_def Let_def
        split: option.splits sum.splits)

declare first_pass_loop.simps(2) [simp del]

declare second_pass_loop.simps(2) [simp del]

lemma first_pass_loop_append:
  "first_pass_loop (xs @ ys) s = bind_err (first_pass_loop xs s) (first_pass_loop ys)"
proof (induction xs arbitrary: s)
  case Nil
  show ?case by (simp add: bind_err_def)
next
  case (Cons raw xs)
  obtain tab a where s: "s = (tab, a)" by (cases s)
  show ?case
    by (simp add: s first_pass_loop_Cons Cons.IH bind_err_def split: option.splits)
qed

lemma second_pass_loop_append:
  "second_pass_loop (xs @ ys) st s = bind_err (second_pass_loop xs st s) (second_pass_loop ys st)"
proof (induction xs arbitrary: s)
  case Nil
  show ?case by (simp add: bind_err_def)
next
  case (Cons raw xs)
  obtain a acc where s: "s = (a, acc)" by (cases s)
  show ?case
    by (simp add: s second_pass_loop_Cons Cons.IH bind_err_def split: sum.splits)
qed

lemma first_pass_loop_address:
  "first_pass_loop xs (tab, a) = Inr (tab', a')
     \<Longrightarrow> a' = a + 4 * int (length (filter has_instruction xs))"
proof (induction xs arbitrary: tab a)
  case Nil
  then show ?case by simp
next
  case (Cons raw xs)
  from Cons.prems show ?case
    by (auto simp: first_pass_loop_Cons split: option.splits if_splits dest!: Cons.IH)
qed

lemma second_pass_loop_address:
  "second_pass_loop xs st (a, acc) = Inr (a', res)
     \<Longrightarrow> a' = a + 4 * int (length (filter has_instruction xs))"
proof (induction xs arbitrary: a acc)
  case Nil
  then show ?case by simp
next
  case (Cons raw xs)
  from Cons.prems show ?case
    by (auto simp: second_pass_loop_Cons has_instruction_not_blank
          split: sum.splits if_splits dest!: Cons.IH)
qed

lemma first_pass_loop_error:
  "first_pass_loop xs (tab, a) = Inl e \<Longrightarrow> \<exists>l. e = DuplicateLabel l"
proof (induction xs arbitrary: tab a)
  case Nil
  then show ?case by simp
next
  case (Cons raw xs)
  from Cons.prems show ?case
    by (auto simp: first_pass_loop_Cons split: option.splits if_splits dest: Cons.IH)
qed

lemma first_pass_loop_keeps:
  "first_pass_loop xs (tab, a) = Inr (tab', a') \<Longrightarrow> tab l = Some v \<Longrightarrow> tab' l = Some v"
proof (induction xs arbitrary: tab a)
  case Nil
  then show ?case by simp
next
  case (Cons raw xs)
  show ?case
  proof (cases "line_label raw")
    case None
    with Cons.prems Cons.IH show ?thesis
      by (simp add: first_pass_loop_Cons)
  next
    case (Some l')
    with Cons.prems have free: "tab l' = None"
      and rest: "first_pass_loop xs (tab(l' \<mapsto> a), a + (if has_instruction raw then 4 else 0))
                  = Inr (tab', a')"
      by (auto simp: first_pass_loop_Cons split: if_splits)
    from free Cons.prems(2) have "l \<noteq> l'" by auto
    then have "(tab(l' \<mapsto> a)) l = Some v"
      using Cons.prems(2) by simp
    with rest show ?thesis by (rule Cons.IH)
  qed
qed

lemma first_pass_loop_append_Inr:
  assumes "first_pass_loop (xs @ ys) s = Inr r"
  obtains m where "first_pass_loop xs s = Inr m" "first_pass_loop ys m = Inr r"
  using assms by (auto simp: first_pass_loop_append bind_err_def split: sum.splits)

lemma second_pass_loop_append_Inr:
  assumes "second_pass_loop (xs @ ys) st s = Inr r"
  obtains m where "second_pass_loop xs st s = Inr m" "second_pass_loop ys st m = Inr r"
  using assms by (auto simp: second_pass_loop_append bind_err_def split: sum.splits)

lemma first_pass_loop_label:
  assumes run: "first_pass_loop (xs @ raw # ys) (tab, a) = Inr (tab', a')"
    and lab: "line_label raw = Some l"
  shows "tab' l = Some (a + 4 * int (length (filter has_instruction xs)))"
proof -
  from run obtain m where m: "first_pass_loop xs (tab, a) = Inr m"
    and rest: "first_pass_loop (raw # ys) m = Inr (tab', a')"
    by (rule first_pass_loop_append_Inr)
  obtain t1 a1 where m_eq: "m = (t1, a1)" by (cases m)
  from m have a1: "a1 = a + 4 * int (length (filter has_instruction xs))"
    unfolding m_eq by (rule first_pass_loop_address)
  from rest lab
  have "first_pass_loop ys (t1(l \<mapsto> a1), a1 + (if has_instruction raw then 4 else 0))
          = Inr (tab', a')"
    by (auto simp: m_eq first_pass_loop_Cons split: if_splits)
  then have "tab' l = Some a1"
    by (rule first_pass_loop_keeps) simp
  with a1 show ?thesis by simp
qed

lemma first_pass_loop_duplicate:
  assumes "line_label ri = Some l" "line_label rj = Some l"
  shows "\<exists>l'. first_pass_loop (xs @ ri # ys @ rj # zs) (tab, a) = Inl (DuplicateLabel l')"
proof (cases "first_pass_loop (xs @ ri # ys @ rj # zs) (tab, a)")
  case (Inl e)
  then show ?thesis
    using first_pass_loop_error [of "xs @ ri # ys @ rj # zs" tab a e] by auto
next
  case (Inr r)
  then have "first_pass_loop ((xs @ ri # ys) @ rj # zs) (tab, a) = Inr r"
    by simp
  then obtain m where m: "first_pass_loop (xs @ ri # ys) (tab, a) = Inr m"
    and rest: "first_pass_loop (rj # zs) m = Inr r"
    by (rule first_pass_loop_append_Inr)
  obtain t1 a1 where m_eq: "m = (t1, a1)" by (cases m)
  from m assms(1) have "t1 l \<noteq> None"
    unfolding m_eq by (auto dest: first_pass_loop_label)
  with rest assms(2) show ?thesis
    by (simp add: m_eq first_pass_loop_Cons)
qed

lemma second_pass_loop_results:
  "second_pass_loop xs st (a, acc) = Inr (a', res)
     \<Longrightarrow> \<exists>new. res = acc @ new
             \<and> list_all2 (result_for st) (filter (\<lambda>raw. \<not> is_blank raw) xs) new"
proof (induction xs arbitrary: a acc)
  case Nil
  then show ?case by simp
next
  case (Cons raw xs)
  show ?case
  proof (cases "is_blank raw")
    case True
    with Cons.prems have "second_pass_loop xs st (a, acc) = Inr (a', res)"
      by (simp add: second_pass_loop_Cons)
    from Cons.IH [OF this] True show ?thesis by simp
  next
    case False
    show ?thesis
    proof (cases "has_instruction raw")
      case no: False
      with False Cons.prems
      have "second_pass_loop xs st (a, acc @ [(raw, None)]) = Inr (a', res)"
        by (simp add: second_pass_loop_Cons)
      from Cons.IH [OF this] obtain new where new: "res = (acc @ [(raw, None)]) @ new"
        "list_all2 (result_for st) (filter (\<lambda>raw. \<not> is_blank raw) xs) new"
        by blast
      have "result_for st raw (raw, None)"
        using no by (simp add: result_for_def)
      with new False show ?thesis
        by (intro exI [of _ "(raw, None) # new"]) simp
    next
      case yes: True
      with False Cons.prems obtain code
        where code: "assemble (instruction_part raw) st a = Inr code"
          and rest: "second_pass_loop xs st (a + 4, acc @ [(raw, Some code)]) = Inr (a', res)"
        by (auto simp: second_pass_loop_Cons split: sum.splits)
      from Cons.IH [OF rest] obtain new where new: "res = (acc @ [(raw, Some code)]) @ new"
        "list_all2 (result_for st) (filter (\<lambda>raw. \<not> is_blank raw) xs) new"
        by blast
      have "result_for st raw (raw, Some code)"
        using yes code by (auto simp: result_for_def)
      with new False show ?thesis
        by (intro exI [of _ "(raw, Some code) # new"]) simp
    qed
  qed
qed

lemma filter_none_take:
  assumes "i \<le> j" "\<forall>k. i \<le> k \<and> k < j \<longrightarrow> \<not> P (xs ! k)" "j \<le> length xs"
  shows "filter P (take j xs) = filter P (take i xs)"
proof -
  have "take j xs = take i xs @ take (j - i) (drop i xs)"
    using assms(1) by (metis le_add_diff_inverse take_add)
  moreover have "filter P (take (j - i) (drop i xs)) = []"
  proof -
    have "\<forall>x \<in> set (take (j - i) (drop i xs)). \<not> P x"
    proof
      fix x assume "x \<in> set (take (j - i) (drop i xs))"
      then obtain n where n: "n < length (take (j - i) (drop i xs))"
        "x = take (j - i) (drop i xs) ! n"
        by (auto simp: in_set_conv_nth)
      then have "n < j - i" "i + n < length xs" using assms(3) by auto
      then have "x = xs ! (i + n)" using n by simp
      moreover have "i \<le> i + n \<and> i + n < j" using \<open>n < j - i\<close> by auto
      ultimately show "\<not> P x" using assms(2) by blast
    qed
    then show ?thesis by (simp add: filter_empty_conv)
  qed
  ultimately show ?thesis by simp
qed

subsection \<open>Evaluation on concrete text\<close>

lemmas text_defs =
  tokenize_def strip_def replace_punct_def split_ws_def is_space_def lower_def lower_char_def
  py_int_def is_digit_def digit_val_def strip_comment_def match_label_def is_ident_def
  line_text_def is_blank_def line_label_def instruction_part_def has_instruction_def Let_def

lemmas table_defs =
  parse_register_def REGISTER_MAP_def REGISTER_LIST_def INSTRUCTIONS_def

lemma replicate_numeral: "replicate (numeral k) x = x # replicate (pred_numeral k) x"
  by (simp add: numeral_eq_Suc)

lemmas number_defs = replicate_numeral
  to_binary_def format_b_def zero_pad_def bin_digits.simps int_base2_def is_bin_def
  bin_chars_def bin_val_def render_def render_word_def format_08x_def hex_digits.simps
  hex_char_def

lemmas encode_defs =
  assemble_def encode_R_def encode_I_def encode_J_def bind_err_def Let_def drop_bit_eq_div

section \<open>The statements of the specification\<close>

lemma assemble_jump:
  assumes tok: "tokenize line = [m, c]" and mn: "lower m = ''j''"
  shows "assemble line symbol_table addr =
           (let jump = (\<lambda>t. if t mod 4 \<noteq> 0 then Inl (UnalignedJumpTarget t)
                             else render (to_binary 2 6 @ to_binary (t div 4) 26))
            in case symbol_table c of
                 Some t \<Rightarrow> jump t
               | None \<Rightarrow>
                   (case py_int c of
                      Some n \<Rightarrow> jump n
                    | None \<Rightarrow> Inl (InvalidLabelOrAddress ''j'' c)))"
  by (simp add: assemble_def tok mn INSTRUCTIONS_simps encode_J_def bind_err_def Let_def
        drop_bit_eq_div split: option.splits)

text \<open>What holds of the fields that fit: the three values named for \<open>to_binary\<close>, a
  jump whose target is below \<open>2 ^ 28\<close> in size, and an immediate of \<open>addi\<close> in
  \<open>[-65536, 65535]\<close>.\<close>

lemma to_binary_examples:
  "to_binary (- 1) 16 = ''1111111111111111'' \<and> bin_val (to_binary (- 1) 16) = 0xFFFF
   \<and> to_binary 32767 16 = ''0111111111111111'' \<and> bin_val (to_binary 32767 16) = 0x7FFF
   \<and> to_binary (- 32768) 16 = ''1000000000000000'' \<and> bin_val (to_binary (- 32768) 16) = 0x8000"
  by (simp add: number_defs)

lemma assemble_jump_in_range:
  assumes "tokenize line = [m, c]" and "lower m = ''j''"
    and "case symbol_table c of Some t \<Rightarrow> target = t | None \<Rightarrow> py_int c = Some target"
    and "target mod 4 = 0" and "- 268435456 \<le> target" and "target < 268435456"
  shows "assemble line symbol_table addr
           = Inr (render_word (2 * 2 ^ 26 + (target div 4) mod 2 ^ 26))"
proof -
  have "render (to_binary 2 6 @ to_binary (target div 4) 26)
          = Inr (render_word (2 * 2 ^ 26 + (target div 4) mod 2 ^ 26))"
    using assms(5,6) by (intro render_J_fields) auto
  then show ?thesis
    using assemble_jump [OF assms(1,2), of symbol_table addr] assms(3,4)
    by (auto simp: Let_def split: option.splits)
qed

lemma assemble_addi_in_range:
  assumes "tokenize line = [m, a, b, c]" and "lower m = ''addi''"
    and "parse_register a = Inr rt" and "parse_register b = Inr rs"
    and "py_int c = Some imm" and "- 65536 \<le> imm" and "imm < 65536"
  shows "assemble line symbol_table addr
           = Inr (render_word (8 * 2 ^ 26 + rs * 2 ^ 21 + rt * 2 ^ 16 + imm mod 2 ^ 16))"
proof -
  note r = parse_register_range [OF assms(3)] parse_register_range [OF assms(4)]
  have "render (to_binary 8 6 @ to_binary rs 5 @ to_binary rt 5 @ to_binary imm 16)
          = Inr (render_word (8 * 2 ^ 26 + rs * 2 ^ 21 + rt * 2 ^ 16 + imm mod 2 ^ 16))"
    using r assms(6,7) by (intro render_I_fields) auto
  then show ?thesis
    by (simp add: assemble_def assms(1-5) INSTRUCTIONS_simps encode_I_def bind_err_def Let_def)
qed

text \<open>
  C1. A \<open>beq\<close> or \<open>bne\<close> with three operands and known registers: when the third
  operand is in the symbol table the immediate is
  \<open>(target - (current address + 4)) div 4\<close> (the quotient rounded down, which is what
  the shift by two computes), otherwise it is the operand read as an integer.
  Encoding fails with \<open>BranchOffsetOutOfRange\<close> exactly when the immediate is outside
  \<open>[-32768, 32767]\<close>; otherwise the word holds the opcode, the two registers and, in
  its low 16 bits, the immediate in two's complement.
\<close>

theorem branch_immediate_encoding:
  assumes "tokenize line = [m, a, b, c]"
    and "lower m = ''beq'' \<or> lower m = ''bne''"
    and "parse_register a = Inr rs" and "parse_register b = Inr rt"
    and "case symbol_table c of
           Some target \<Rightarrow> imm = (target - (addr + 4)) div 4
         | None \<Rightarrow> py_int c = Some imm"
  shows "assemble line symbol_table addr =
           (if - 32768 \<le> imm \<and> imm \<le> 32767
            then Inr (render_word ((if lower m = ''beq'' then 4 else 5) * 2 ^ 26
                                     + rs * 2 ^ 21 + rt * 2 ^ 16 + imm mod 2 ^ 16))
            else Inl (BranchOffsetOutOfRange (lower m) imm))
         \<and> (- 32768 \<le> imm \<and> imm \<le> 32767 \<longrightarrow>
              (let f = imm mod 2 ^ 16 in if 32768 \<le> f then f - 65536 else f) = imm)"
  using assemble_branch [where symbol_table = symbol_table and c = c and imm = imm
      and addr = addr, OF assms] signed16 [of imm]
  by blast

theorem branch_immediate_encoding_witness:
  "assemble ''beq $t0, $t1, L'' [''L'' \<mapsto> 8] 0 = Inr ''0x1109_0001''
   \<and> assemble ''bne $t0, $t1, -1'' Map.empty 0 = Inr ''0x1509_ffff''
   \<and> assemble ''beq $t0, $t1, far'' [''far'' \<mapsto> 131076] 0
       = Inl (BranchOffsetOutOfRange ''beq'' 32768)
   \<and> assemble ''beq $t0, $t1, -32769'' Map.empty 0
       = Inl (BranchOffsetOutOfRange ''beq'' (- 32769))"
proof -
  have t: "tokenize ''beq $t0, $t1, L'' = [''beq'', ''$t0'', ''$t1'', ''L'']"
    "tokenize ''bne $t0, $t1, -1'' = [''bne'', ''$t0'', ''$t1'', ''-1'']"
    "tokenize ''beq $t0, $t1, far'' = [''beq'', ''$t0'', ''$t1'', ''far'']"
    "tokenize ''beq $t0, $t1, -32769'' = [''beq'', ''$t0'', ''$t1'', ''-32769'']"
    by (simp_all add: text_defs)
  have m: "lower ''beq'' = ''beq'' \<or> lower ''beq'' = ''bne''"
    "lower ''bne'' = ''beq'' \<or> lower ''bne'' = ''bne''"
    by (simp_all add: text_defs)
  have r: "parse_register ''$t0'' = Inr 8" "parse_register ''$t1'' = Inr 9"
    by (simp_all add: table_defs)
  have i1: "case [''L'' \<mapsto> 8::int] ''L'' of
              Some target \<Rightarrow> (1::int) = (target - (0 + 4)) div 4
            | None \<Rightarrow> py_int ''L'' = Some 1"
    by simp
  have i2: "case (Map.empty :: string \<rightharpoonup> int) ''-1'' of
              Some target \<Rightarrow> (- 1::int) = (target - (0 + 4)) div 4
            | None \<Rightarrow> py_int ''-1'' = Some (- 1)"
    by (simp add: text_defs)
  have i3: "case [''far'' \<mapsto> 131076::int] ''far'' of
              Some target \<Rightarrow> (32768::int) = (target - (0 + 4)) div 4
            | None \<Rightarrow> py_int ''far'' = Some 32768"
    by simp
  have i4: "case (Map.empty :: string \<rightharpoonup> int) ''-32769'' of
              Some target \<Rightarrow> (- 32769::int) = (target - (0 + 4)) div 4
            | None \<Rightarrow> py_int ''-32769'' = Some (- 32769)"
    by (simp add: text_defs)
  show ?thesis
    using
      branch_immediate_encoding [where symbol_table = "[''L'' \<mapsto> 8]" and c = "''L''"
        and imm = 1 and addr = 0, OF t(1) m(1) r i1]
      branch_immediate_encoding [where symbol_table = Map.empty and c = "''-1''"
        and imm = "- 1" and addr = 0, OF t(2) m(2) r i2]
      branch_immediate_encoding [where symbol_table = "[''far'' \<mapsto> 131076]" and c = "''far''"
        and imm = 32768 and addr = 0, OF t(3) m(1) r i3]
      branch_immediate_encoding [where symbol_table = Map.empty and c = "''-32769''"
        and imm = "- 32769" and addr = 0, OF t(4) m(1) r i4]
    by (simp add: text_defs number_defs)
qed

text \<open>
  C8. An \<open>sll\<close> with three operands and known registers fails with
  \<open>InvalidShiftAmount\<close> whenever the third operand is not an integer in \<open>[0, 31]\<close>, and
  otherwise succeeds with the parsed value in the shamt field (bits 6 to 10), \<open>rt\<close>
  and \<open>rd\<close> in their fields and \<open>rs\<close>, opcode and function code zero.
\<close>

theorem sll_shift_amount:
  assumes "tokenize line = [m, a, b, c]"
    and "lower m = ''sll''"
    and "parse_register a = Inr rd" and "parse_register b = Inr rt"
  shows "assemble line symbol_table addr =
           (case py_int c of
              None \<Rightarrow> Inl (InvalidShiftAmount ''sll'')
            | Some shamt \<Rightarrow>
                if 0 \<le> shamt \<and> shamt < 32
                then Inr (render_word (rt * 2 ^ 16 + rd * 2 ^ 11 + shamt * 2 ^ 6))
                else Inl (InvalidShiftAmount ''sll''))"
  using assms by (rule assemble_sll)

theorem sll_shift_amount_witness:
  "assemble ''sll $t0, $t1, 32'' Map.empty 0 = Inl (InvalidShiftAmount ''sll'')
   \<and> assemble ''sll $t0, $t1, x'' Map.empty 0 = Inl (InvalidShiftAmount ''sll'')
   \<and> assemble ''sll $t0, $t1, 31'' Map.empty 0 = Inr ''0x0009_47c0''"
proof -
  have t: "tokenize ''sll $t0, $t1, 32'' = [''sll'', ''$t0'', ''$t1'', ''32'']"
    "tokenize ''sll $t0, $t1, x'' = [''sll'', ''$t0'', ''$t1'', ''x'']"
    "tokenize ''sll $t0, $t1, 31'' = [''sll'', ''$t0'', ''$t1'', ''31'']"
    by (simp_all add: text_defs)
  have m: "lower ''sll'' = ''sll''"
    by (simp add: text_defs)
  have r: "parse_register ''$t0'' = Inr 8" "parse_register ''$t1'' = Inr 9"
    by (simp_all add: table_defs)
  show ?thesis
    using sll_shift_amount [OF t(1) m r] sll_shift_amount [OF t(2) m r]
      sll_shift_amount [OF t(3) m r]
    by (simp add: text_defs number_defs)
qed

text \<open>
  C10. In the operand of \<open>j\<close> and in the third operand of \<open>beq\<close> and \<open>bne\<close> the symbol
  table is asked first: an operand that is a defined label stands for the label's
  address, whatever it would mean as a number, and it is read as a literal integer
  only when the table has no such label.
\<close>

theorem label_lookup_precedence:
  "(tokenize line = [m, c] \<and> lower m = ''j'' \<longrightarrow>
      assemble line symbol_table addr =
        (let jump = (\<lambda>t. if t mod 4 \<noteq> 0 then Inl (UnalignedJumpTarget t)
                          else render (to_binary 2 6 @ to_binary (t div 4) 26))
         in case symbol_table c of
              Some t \<Rightarrow> jump t
            | None \<Rightarrow>
                (case py_int c of
                   Some n \<Rightarrow> jump n
                 | None \<Rightarrow> Inl (InvalidLabelOrAddress ''j'' c))))
   \<and> (tokenize line = [m, a, b, c] \<and> (lower m = ''beq'' \<or> lower m = ''bne'')
        \<and> parse_register a = Inr rs \<and> parse_register b = Inr rt \<longrightarrow>
      assemble line symbol_table addr =
        (let branch = (\<lambda>imm. if - 32768 \<le> imm \<and> imm \<le> 32767
                              then Inr (render_word ((if lower m = ''beq'' then 4 else 5) * 2 ^ 26
                                          + rs * 2 ^ 21 + rt * 2 ^ 16 + imm mod 2 ^ 16))
                              else Inl (BranchOffsetOutOfRange (lower m) imm))
         in case symbol_table c of
              Some t \<Rightarrow> branch ((t - (addr + 4)) div 4)
            | None \<Rightarrow>
                (case py_int c of
                   Some n \<Rightarrow> branch n
                 | None \<Rightarrow> Inl (InvalidLabelOrImmediate (lower m) c))))"
proof (intro conjI impI)
  assume "tokenize line = [m, c] \<and> lower m = ''j''"
  then show "assemble line symbol_table addr =
        (let jump = (\<lambda>t. if t mod 4 \<noteq> 0 then Inl (UnalignedJumpTarget t)
                          else render (to_binary 2 6 @ to_binary (t div 4) 26))
         in case symbol_table c of
              Some t \<Rightarrow> jump t
            | None \<Rightarrow>
                (case py_int c of
                   Some n \<Rightarrow> jump n
                 | None \<Rightarrow> Inl (InvalidLabelOrAddress ''j'' c)))"
    using assemble_jump [of line m c symbol_table addr] by blast
next
  assume h: "tokenize line = [m, a, b, c] \<and> (lower m = ''beq'' \<or> lower m = ''bne'')
        \<and> parse_register a = Inr rs \<and> parse_register b = Inr rt"
  show "assemble line symbol_table addr =
        (let branch = (\<lambda>imm. if - 32768 \<le> imm \<and> imm \<le> 32767
                              then Inr (render_word ((if lower m = ''beq'' then 4 else 5) * 2 ^ 26
                                          + rs * 2 ^ 21 + rt * 2 ^ 16 + imm mod 2 ^ 16))
                              else Inl (BranchOffsetOutOfRange (lower m) imm))
         in case symbol_table c of
              Some t \<Rightarrow> branch ((t - (addr + 4)) div 4)
            | None \<Rightarrow>
                (case py_int c of
                   Some n \<Rightarrow> branch n
                 | None \<Rightarrow> Inl (InvalidLabelOrImmediate (lower m) c)))"
  proof (cases "symbol_table c")
    case (Some t)
    then show ?thesis
      using assemble_branch [where line = line and m = m and a = a and b = b and c = c
          and rs = rs and rt = rt and symbol_table = symbol_table and addr = addr
          and imm = "(t - (addr + 4)) div 4"] h
      by (simp add: Let_def)
  next
    case None
    show ?thesis
    proof (cases "py_int c")
      case (Some n)
      then show ?thesis
        using assemble_branch [where line = line and m = m and a = a and b = b and c = c
            and rs = rs and rt = rt and symbol_table = symbol_table and addr = addr
            and imm = n] h None
        by (simp add: Let_def)
    next
      case none: None
      have ins: "INSTRUCTIONS (lower m) = Some (IType, if lower m = ''beq'' then 4 else 5)"
        using h by (auto simp: INSTRUCTIONS_simps)
      have "encode_I (lower m) (if lower m = ''beq'' then 4 else 5) [a, b, c] symbol_table addr
              = Inl (InvalidLabelOrImmediate (lower m) c)"
        using h None none by (auto simp: encode_I_def bind_err_def Let_def)
      then show ?thesis
        using h None none by (simp add: assemble_def ins bind_err_def Let_def)
    qed
  qed
qed

theorem label_lookup_precedence_witness:
  "py_int ''8'' = Some 8
   \<and> assemble ''j 8'' [''8'' \<mapsto> 0] 0 = Inr ''0x0800_0000''
   \<and> assemble ''j 8'' Map.empty 0 = Inr ''0x0800_0002''
   \<and> assemble ''beq $t0, $t1, 8'' [''8'' \<mapsto> 0] 0 = Inr ''0x1109_ffff''
   \<and> assemble ''beq $t0, $t1, 8'' Map.empty 0 = Inr ''0x1109_0008''"
proof -
  have tj: "tokenize ''j 8'' = [''j'', ''8''] \<and> lower ''j'' = ''j''"
    by (simp add: text_defs)
  have tb: "tokenize ''beq $t0, $t1, 8'' = [''beq'', ''$t0'', ''$t1'', ''8'']
              \<and> (lower ''beq'' = ''beq'' \<or> lower ''beq'' = ''bne'')
              \<and> parse_register ''$t0'' = Inr 8 \<and> parse_register ''$t1'' = Inr 9"
    by (simp add: text_defs table_defs)
  have p: "py_int ''8'' = Some 8"
    by (simp add: text_defs)
  note j = label_lookup_precedence [THEN conjunct1, rule_format, OF tj]
  note b = label_lookup_precedence [THEN conjunct2, rule_format, OF tb]
  show ?thesis
    using j [where symbol_table = "[''8'' \<mapsto> 0]" and addr = 0]
      j [where symbol_table = Map.empty and addr = 0]
      b [where symbol_table = "[''8'' \<mapsto> 0]" and addr = 0]
      b [where symbol_table = Map.empty and addr = 0] p
    by (simp add: text_defs number_defs)
qed

text \<open>
  C6. When two lines of the input define the same label, the first pass fails with
  \<open>DuplicateLabel\<close>, whether or not either line also carries an instruction; and a
  table that the first pass returns holds every label of the input, each label
  being defined by one line only.
\<close>

theorem duplicate_label_rejected:
  "(i < j \<and> j < length lines \<and> line_label (lines ! i) = Some l
      \<and> line_label (lines ! j) = Some l \<longrightarrow>
      (\<exists>l'. first_pass lines = Inl (DuplicateLabel l')))
   \<and> (first_pass lines = Inr symbol_table \<and> i < j \<and> j < length lines
        \<and> line_label (lines ! i) = Some l \<longrightarrow>
      symbol_table l \<noteq> None \<and> line_label (lines ! j) \<noteq> Some l)"
proof -
  have dup: "\<exists>l'. first_pass lines = Inl (DuplicateLabel l')"
    if h: "i < j" "j < length lines" "line_label (lines ! i) = Some l"
      "line_label (lines ! j) = Some l"
  proof -
    have 1: "lines = take j lines @ lines ! j # drop (Suc j) lines"
      using h(2) by (rule id_take_nth_drop)
    have "i < length (take j lines)"
      using h(1,2) by simp
    then have "take j lines
                 = take i (take j lines) @ take j lines ! i # drop (Suc i) (take j lines)"
      by (rule id_take_nth_drop)
    then have 2: "take j lines = take i lines @ lines ! i # drop (Suc i) (take j lines)"
      using h(1) by (simp add: min_def)
    have "lines = take i lines @ lines ! i # drop (Suc i) (take j lines)
                    @ lines ! j # drop (Suc j) lines"
      using 1 2 by (metis append_Cons append_assoc)
    then obtain xs ys zs where "lines = xs @ lines ! i # ys @ lines ! j # zs"
      by blast
    then obtain l' where "first_pass_loop lines (Map.empty, 0) = Inl (DuplicateLabel l')"
      using first_pass_loop_duplicate [OF h(3) h(4), of xs ys zs Map.empty 0] by metis
    then show ?thesis
      by (simp add: first_pass_def)
  qed
  have ok: "symbol_table l \<noteq> None \<and> line_label (lines ! j) \<noteq> Some l"
    if h: "first_pass lines = Inr symbol_table" "i < j" "j < length lines"
      "line_label (lines ! i) = Some l"
  proof
    from h(1) obtain a' where run: "first_pass_loop lines (Map.empty, 0) = Inr (symbol_table, a')"
      by (cases "first_pass_loop lines (Map.empty, 0)") (auto simp: first_pass_def)
    have "i < length lines" using h(2,3) by simp
    then have "lines = take i lines @ lines ! i # drop (Suc i) lines"
      by (rule id_take_nth_drop)
    with run have "first_pass_loop (take i lines @ lines ! i # drop (Suc i) lines) (Map.empty, 0)
                     = Inr (symbol_table, a')"
      by simp
    from first_pass_loop_label [OF this h(4)] show "symbol_table l \<noteq> None"
      by simp
    show "line_label (lines ! j) \<noteq> Some l"
      using dup h by auto
  qed
  from dup ok show ?thesis by blast
qed

theorem duplicate_label_rejected_witness:
  "first_pass [''L: add $t0, $t0, $t0'', ''j L'', ''L:''] = Inl (DuplicateLabel ''L'')
   \<and> first_pass [''L:'', '''', ''L: j L''] = Inl (DuplicateLabel ''L'')
   \<and> first_pass [''L:'', ''M: j L''] = Inr [''L'' \<mapsto> 0, ''M'' \<mapsto> 0]
   \<and> [''L'' \<mapsto> 0 :: int, ''M'' \<mapsto> 0] ''L'' \<noteq> None"
proof -
  have a: "(0::nat) < 2 \<and> 2 < length [''L: add $t0, $t0, $t0'', ''j L'', ''L:'']
             \<and> line_label ([''L: add $t0, $t0, $t0'', ''j L'', ''L:''] ! 0) = Some ''L''
             \<and> line_label ([''L: add $t0, $t0, $t0'', ''j L'', ''L:''] ! 2) = Some ''L''"
    by (simp add: text_defs)
  have b: "(0::nat) < 2 \<and> 2 < length [''L:'', '''', ''L: j L'']
             \<and> line_label ([''L:'', '''', ''L: j L''] ! 0) = Some ''L''
             \<and> line_label ([''L:'', '''', ''L: j L''] ! 2) = Some ''L''"
    by (simp add: text_defs)
  have c: "first_pass [''L:'', ''M: j L''] = Inr [''L'' \<mapsto> 0, ''M'' \<mapsto> 0]"
    by (simp add: first_pass_def first_pass_loop.simps text_defs)
  have d: "first_pass [''L:'', ''M: j L''] = Inr [''L'' \<mapsto> 0, ''M'' \<mapsto> 0]
             \<and> (0::nat) < 1 \<and> 1 < length [''L:'', ''M: j L'']
             \<and> line_label ([''L:'', ''M: j L''] ! 0) = Some ''L''"
    using c by (simp add: text_defs)
  from duplicate_label_rejected [THEN conjunct1, rule_format, OF a]
  have 1: "first_pass [''L: add $t0, $t0, $t0'', ''j L'', ''L:''] = Inl (DuplicateLabel ''L'')"
    by (auto simp: first_pass_def first_pass_loop.simps text_defs)
  from duplicate_label_rejected [THEN conjunct1, rule_format, OF b]
  have 2: "first_pass [''L:'', '''', ''L: j L''] = Inl (DuplicateLabel ''L'')"
    by (auto simp: first_pass_def first_pass_loop.simps text_defs)
  from duplicate_label_rejected [THEN conjunct2, rule_format, OF d]
  have 3: "[''L'' \<mapsto> 0 :: int, ''M'' \<mapsto> 0] ''L'' \<noteq> None"
    by blast
  from 1 2 c 3 show ?thesis by blast
qed

text \<open>
  C9. Let the first pass succeed with table \<open>symbol_table\<close>, and let the second pass
  reach line \<open>j\<close> holding the running address \<open>a2\<close>. Then the first pass held the same
  address when it reached line \<open>j\<close>, this address is four times the number of
  instruction-bearing lines before \<open>j\<close>, and every label defined at a line \<open>i \<le> j\<close>
  with no instruction-bearing line from \<open>i\<close> up to \<open>j\<close> resolves to \<open>a2\<close>: a label
  resolves to the address of the first instruction at or after its definition.
\<close>

theorem pass_addresses_agree:
  assumes "first_pass lines = Inr symbol_table"
    and "j \<le> length lines"
    and "second_pass_loop (take j lines) symbol_table (0, []) = Inr (a2, res)"
  shows "(\<exists>tab. first_pass_loop (take j lines) (Map.empty, 0) = Inr (tab, a2))
       \<and> a2 = 4 * int (length (filter has_instruction (take j lines)))
       \<and> (\<forall>i l. i \<le> j \<and> i < length lines \<and> line_label (lines ! i) = Some l
                 \<and> (\<forall>k. i \<le> k \<and> k < j \<longrightarrow> \<not> has_instruction (lines ! k))
               \<longrightarrow> symbol_table l = Some a2)"
proof (intro conjI allI impI)
  from assms(1) obtain a' where run: "first_pass_loop lines (Map.empty, 0) = Inr (symbol_table, a')"
    by (cases "first_pass_loop lines (Map.empty, 0)") (auto simp: first_pass_def)
  from assms(3) show a2: "a2 = 4 * int (length (filter has_instruction (take j lines)))"
    by (auto dest: second_pass_loop_address)
  from run have "first_pass_loop (take j lines @ drop j lines) (Map.empty, 0)
                   = Inr (symbol_table, a')"
    by simp
  then obtain m where m: "first_pass_loop (take j lines) (Map.empty, 0) = Inr m"
    by (rule first_pass_loop_append_Inr)
  obtain tab a1 where m_eq: "m = (tab, a1)" by (cases m)
  from m have "a1 = 4 * int (length (filter has_instruction (take j lines)))"
    unfolding m_eq by (auto dest: first_pass_loop_address)
  with a2 m show "\<exists>tab. first_pass_loop (take j lines) (Map.empty, 0) = Inr (tab, a2)"
    by (auto simp: m_eq)
  fix i l
  assume h: "i \<le> j \<and> i < length lines \<and> line_label (lines ! i) = Some l
               \<and> (\<forall>k. i \<le> k \<and> k < j \<longrightarrow> \<not> has_instruction (lines ! k))"
  then have "lines = take i lines @ lines ! i # drop (Suc i) lines"
    by (simp add: id_take_nth_drop)
  with run have "first_pass_loop (take i lines @ lines ! i # drop (Suc i) lines) (Map.empty, 0)
                   = Inr (symbol_table, a')"
    by simp
  from first_pass_loop_label [OF this] h
  have "symbol_table l = Some (4 * int (length (filter has_instruction (take i lines))))"
    by simp
  moreover have "filter has_instruction (take j lines) = filter has_instruction (take i lines)"
    using h assms(2) by (intro filter_none_take) auto
  ultimately show "symbol_table l = Some a2"
    using a2 by simp
qed

theorem pass_addresses_agree_witness:
  "first_pass [''L:'', ''add $t0, $s0, $s1 # c'', '''', ''M: j L'']
     = Inr [''L'' \<mapsto> 0, ''M'' \<mapsto> 4]
   \<and> second_pass_loop (take 3 [''L:'', ''add $t0, $s0, $s1 # c'', '''', ''M: j L''])
        [''L'' \<mapsto> 0, ''M'' \<mapsto> 4] (0, [])
     = Inr (4, [(''L:'', None), (''add $t0, $s0, $s1 # c'', Some ''0x0211_4020'')])
   \<and> (\<exists>tab. first_pass_loop (take 3 [''L:'', ''add $t0, $s0, $s1 # c'', '''', ''M: j L''])
               (Map.empty, 0) = Inr (tab, 4))
   \<and> [''L'' \<mapsto> 0 :: int, ''M'' \<mapsto> 4] ''M'' = Some 4"
proof -
  let ?lines = "[''L:'', ''add $t0, $s0, $s1 # c'', '''', ''M: j L'']"
  have 1: "first_pass ?lines = Inr [''L'' \<mapsto> 0, ''M'' \<mapsto> 4]"
    by (simp add: first_pass_def first_pass_loop.simps text_defs)
  have 2: "(3::nat) \<le> length ?lines"
    by simp
  have 3: "second_pass_loop (take 3 ?lines) [''L'' \<mapsto> 0, ''M'' \<mapsto> 4] (0, [])
             = Inr (4, [(''L:'', None), (''add $t0, $s0, $s1 # c'', Some ''0x0211_4020'')])"
    by (simp add: second_pass_loop.simps text_defs table_defs number_defs encode_defs)
  have 4: "(3::nat) \<le> 3 \<and> 3 < length ?lines \<and> line_label (?lines ! 3) = Some ''M''
             \<and> (\<forall>k. (3::nat) \<le> k \<and> k < 3 \<longrightarrow> \<not> has_instruction (?lines ! k))"
    by (simp add: text_defs)
  note t = pass_addresses_agree [OF 1 2 3]
  from t have "\<exists>tab. first_pass_loop (take 3 ?lines) (Map.empty, 0) = Inr (tab, 4)"
    by blast
  moreover from t 4 have "[''L'' \<mapsto> 0 :: int, ''M'' \<mapsto> 4] ''M'' = Some 4"
    by blast
  ultimately show ?thesis
    using 1 3 by blast
qed

text \<open>
  C5, as the code has it. The running address of the second pass starts at 0 and
  grows by 4 for each instruction-bearing line, that is, each line that is not blank
  once its comment is cut and that has text after its label prefix, if any; a line
  that holds only a label leaves the address as it is, like a blank line. The first
  pass keeps its address in the same way.
\<close>

theorem running_address_per_instruction:
  "(second_pass_loop lines symbol_table (0, []) = Inr (a2, res) \<longrightarrow>
      a2 = 4 * int (length (filter has_instruction lines)))
   \<and> (first_pass_loop lines (Map.empty, 0) = Inr (tab, a1) \<longrightarrow>
      a1 = 4 * int (length (filter has_instruction lines)))"
  by (auto dest: second_pass_loop_address first_pass_loop_address)

theorem running_address_per_instruction_witness:
  "second_pass_loop [''L:'', ''add $t0, $s0, $s1 # c'', '''', ''M: j L'']
        [''L'' \<mapsto> 0, ''M'' \<mapsto> 4] (0, [])
     = Inr (8, [(''L:'', None), (''add $t0, $s0, $s1 # c'', Some ''0x0211_4020''),
                (''M: j L'', Some ''0x0800_0000'')])
   \<and> first_pass_loop [''L:'', ''add $t0, $s0, $s1 # c'', '''', ''M: j L''] (Map.empty, 0)
     = Inr ([''L'' \<mapsto> 0, ''M'' \<mapsto> 4], 8)
   \<and> (8::int) = 4 * int (length (filter has_instruction
                       [''L:'', ''add $t0, $s0, $s1 # c'', '''', ''M: j L'']))"
proof -
  let ?lines = "[''L:'', ''add $t0, $s0, $s1 # c'', '''', ''M: j L'']"
  have 1: "second_pass_loop ?lines [''L'' \<mapsto> 0, ''M'' \<mapsto> 4] (0, [])
     = Inr (8, [(''L:'', None), (''add $t0, $s0, $s1 # c'', Some ''0x0211_4020''),
                (''M: j L'', Some ''0x0800_0000'')])"
    by (simp add: second_pass_loop.simps text_defs table_defs number_defs encode_defs)
  have 2: "first_pass_loop ?lines (Map.empty, 0) = Inr ([''L'' \<mapsto> 0, ''M'' \<mapsto> 4], 8)"
    by (simp add: first_pass_loop.simps text_defs)
  from running_address_per_instruction [THEN conjunct1, rule_format, OF 1]
  have "(8::int) = 4 * int (length (filter has_instruction ?lines))" .
  with 1 2 show ?thesis by blast
qed

text \<open>As stated, with an advance after each non-blank line, C5 fails on a line that
  holds only a label: the line is not blank and the address stays 0.\<close>

theorem running_address_label_only_counterexample:
  "\<not> is_blank ''L:''
   \<and> second_pass_loop [''L:''] Map.empty (0, []) = Inr (0, [(''L:'', None)])"
  by (simp add: second_pass_loop.simps text_defs)

text \<open>
  C3, as the code has it. On a successful run the second pass returns, in input
  order, exactly one result for each line that is not blank once its comment is cut
  (a blank line yields no result at all): a line that holds only a label yields its
  text with no code, and an instruction-bearing line yields its text with what
  \<open>assemble\<close> returned for its instruction text.
\<close>

theorem second_pass_results:
  assumes "second_pass lines symbol_table = Inr res"
  shows "list_all2 (result_for symbol_table) (filter (\<lambda>raw. \<not> is_blank raw) lines) res"
proof -
  from assms obtain a' where "second_pass_loop lines symbol_table (0, []) = Inr (a', res)"
    by (cases "second_pass_loop lines symbol_table (0, [])") (auto simp: second_pass_def)
  from second_pass_loop_results [OF this] show ?thesis
    by simp
qed

theorem second_pass_results_witness:
  "second_pass [''add $t0, $s0, $s1'', '''', ''L:''] Map.empty
     = Inr [(''add $t0, $s0, $s1'', Some ''0x0211_4020''), (''L:'', None)]
   \<and> list_all2 (result_for Map.empty) [''add $t0, $s0, $s1'', ''L:'']
        [(''add $t0, $s0, $s1'', Some ''0x0211_4020''), (''L:'', None)]"
proof -
  have 1: "second_pass [''add $t0, $s0, $s1'', '''', ''L:''] Map.empty
             = Inr [(''add $t0, $s0, $s1'', Some ''0x0211_4020''), (''L:'', None)]"
    by (simp add: second_pass_def second_pass_loop.simps text_defs table_defs number_defs
          encode_defs)
  have 2: "filter (\<lambda>raw. \<not> is_blank raw) [''add $t0, $s0, $s1'', '''', ''L:'']
             = [''add $t0, $s0, $s1'', ''L:'']"
    by (simp add: text_defs)
  from second_pass_results [OF 1] 1 show ?thesis
    unfolding 2 by blast
qed

text \<open>As stated, with one result per input line, C3 fails on an input with a blank
  line: three lines give two results.\<close>

theorem second_pass_blank_line_counterexample:
  "second_pass [''add $t0, $s0, $s1'', '''', ''L:''] Map.empty
     = Inr [(''add $t0, $s0, $s1'', Some ''0x0211_4020''), (''L:'', None)]
   \<and> length [(''add $t0, $s0, $s1'', Some ''0x0211_4020''), (''L:'', None :: string option)]
       < length [''add $t0, $s0, $s1'', '''', ''L:'']"
  by (simp add: second_pass_def second_pass_loop.simps text_defs table_defs number_defs
        encode_defs)

text \<open>
  C4. \<open>to_binary\<close> is to give \<open>bits\<close> binary digits for every integer. It does for
  \<open>- (2 ^ bits) \<le> n < 2 ^ bits\<close> (\<open>to_binary_in_range\<close>, and \<open>to_binary_examples\<close> for
  the three values named), but \<open>format\<close> pads and never truncates: a value of
  \<open>2 ^ bits\<close> or more gives more digits than the width, and a value below
  \<open>- (2 ^ bits)\<close> gives a minus sign.
\<close>

theorem to_binary_exceeds_width:
  "to_binary 65536 16 = ''10000000000000000''
   \<and> length (to_binary 65536 16) = 17
   \<and> to_binary (- 65537) 16 = ''-000000000000001''"
  by (simp add: number_defs)

text \<open>
  C2. The immediate of \<open>addi\<close>, \<open>lw\<close> and \<open>sw\<close> is to be truncated to 16 bits whatever
  its size, the word staying well formed. It is for immediates in \<open>[-65536, 65535]\<close>
  (\<open>assemble_addi_in_range\<close>); an immediate of 65536 or more spills into the register
  and opcode fields or gives a ninth hexadecimal digit, and one below \<open>-65536\<close> makes
  the encoding fail.
\<close>

theorem large_immediate_not_truncated:
  "assemble ''addi $t1, $zero, 65536'' Map.empty 0 = Inr ''0x4013_0000''
   \<and> assemble ''lw $t1, 65536($t2)'' Map.empty 0 = Inr ''0x11a9_30000''
   \<and> assemble ''addi $t1, $zero, -65537'' Map.empty 0
       = Inl (InvalidBinaryLiteral ''0010000000001001-000000000000001'')"
  by (simp add: text_defs table_defs number_defs encode_defs)

text \<open>
  C7. The operand of \<open>j\<close> is resolved and checked as stated (\<open>assemble_jump\<close>), and
  the word is the opcode followed by the shifted target in 26 bits for a target in
  \<open>[- (2 ^ 28), 2 ^ 28)\<close> (\<open>assemble_jump_in_range\<close>). A jump to an aligned address of
  \<open>2 ^ 28\<close> or more does not keep the opcode of \<open>j\<close>: the target spills into the
  opcode field.
\<close>

theorem jump_target_exceeds_field:
  "assemble ''j 268435456'' Map.empty 0 = Inr ''0x1400_0000''"
  by (simp add: text_defs table_defs number_defs encode_defs)

end
